theory Spec2Isabelle
  imports Complex_Main
begin

section \<open>NoteStream mind-map renderer: the model\<close>

text \<open>
  The development embeds \<^verbatim>\<open>src/notestream/mindmap_renderer.py\<close>.

  Conventions of the embedding.
  \<^item> A Python \<^verbatim>\<open>str\<close> is a list of Unicode code points, \<open>pystr = nat list\<close>, so that
    \<open>length\<close> is Python's \<^verbatim>\<open>len\<close>; \<open>py ''abc''\<close> writes an ASCII literal.
  \<^item> A Python \<^verbatim>\<open>float\<close> is an exact rational (\<open>rat\<close>): rounding of the binary
    floating-point operations is not part of the model.
  \<^item> Every operation of the source that can raise is a branch returning \<open>Inl\<close> of an
    \<open>error\<close>; a function that can raise returns \<open>error + 'a\<close>.
  \<^item> The \<^verbatim>\<open>x\<close> and \<^verbatim>\<open>y\<close> fields of \<^verbatim>\<open>_RenderNode\<close>, the only fields mutated after
    construction, live in a store indexed by the object; the object created by the
    decorator for counter value \<open>i\<close> is object \<open>i\<close>.
\<close>

subsection \<open>Strings\<close>

type_synonym pystr = "nat list"

definition py :: "string \<Rightarrow> pystr" where
  "py s = map of_char s"

text \<open>Python's Unicode whitespace (\<^verbatim>\<open>str.isspace\<close>, \<^verbatim>\<open>\s\<close> of \<^verbatim>\<open>re\<close>, \<^verbatim>\<open>strip\<close>, \<^verbatim>\<open>split\<close>).\<close>

definition is_space :: "nat \<Rightarrow> bool" where
  "is_space c \<longleftrightarrow>
     (9 \<le> c \<and> c \<le> 13) \<or> (28 \<le> c \<and> c \<le> 32) \<or> c = 133 \<or> c = 160 \<or> c = 5760 \<or>
     (8192 \<le> c \<and> c \<le> 8202) \<or> c = 8232 \<or> c = 8233 \<or> c = 8239 \<or> c = 8287 \<or> c = 12288"

text \<open>The line boundaries of \<^verbatim>\<open>str.splitlines\<close>.\<close>

definition is_linebreak :: "nat \<Rightarrow> bool" where
  "is_linebreak c \<longleftrightarrow>
     (10 \<le> c \<and> c \<le> 13) \<or> (28 \<le> c \<and> c \<le> 30) \<or> c = 133 \<or> c = 8232 \<or> c = 8233"

definition lstrip :: "pystr \<Rightarrow> pystr" where
  "lstrip s = dropWhile is_space s"

definition strip :: "pystr \<Rightarrow> pystr" where
  "strip s = rev (dropWhile is_space (rev (dropWhile is_space s)))"

text \<open>\<^verbatim>\<open>str.split()\<close> without arguments: the maximal runs of non-whitespace.\<close>

function split_ws :: "pystr \<Rightarrow> pystr list" where
  "split_ws s =
     (let s' = dropWhile is_space s
      in if s' = [] then []
         else takeWhile (\<lambda>c. \<not> is_space c) s' # split_ws (dropWhile (\<lambda>c. \<not> is_space c) s'))"
  by pat_completeness auto
termination
proof (relation "measure length")
  show "wf (measure length)" by simp
next
  fix s s' :: pystr
  assume a: "s' = dropWhile is_space s" "s' \<noteq> []"
  have "length (dropWhile (\<lambda>c. \<not> is_space c) s') < length s'"
  proof (cases s')
    case Nil
    with a show ?thesis by simp
  next
    case (Cons c cs)
    with a have "\<not> is_space c"
      by (metis hd_dropWhile list.sel(1))
    with Cons show ?thesis
      by (simp add: le_imp_less_Suc length_dropWhile_le)
  qed
  moreover have "length s' \<le> length s"
    using a by (simp add: length_dropWhile_le)
  ultimately show "(dropWhile (\<lambda>c. \<not> is_space c) s', s) \<in> measure length"
    by simp
qed

text \<open>\<^verbatim>\<open>str.splitlines()\<close>: \<open>cur\<close> is the line being read; \<^verbatim>\<open>\r\n\<close> is one boundary;
  a final line is produced only when it is not empty.\<close>

fun splitlines_from :: "pystr \<Rightarrow> pystr \<Rightarrow> pystr list" where
  "splitlines_from cur [] = (if cur = [] then [] else [cur])"
| "splitlines_from cur [c] =
     (if is_linebreak c then [cur] else [cur @ [c]])"
| "splitlines_from cur (c # d # s) =
     (if c = 13 \<and> d = 10 then cur # splitlines_from [] s
      else if is_linebreak c then cur # splitlines_from [] (d # s)
      else splitlines_from (cur @ [c]) (d # s))"

definition splitlines :: "pystr \<Rightarrow> pystr list" where
  "splitlines s = splitlines_from [] s"

text \<open>\<^verbatim>\<open>str.expandtabs(tabsize)\<close>; \<open>col\<close> is the current column.\<close>

fun expandtabs_from :: "nat \<Rightarrow> nat \<Rightarrow> pystr \<Rightarrow> pystr" where
  "expandtabs_from tabsize col [] = []"
| "expandtabs_from tabsize col (c # s) =
     (if c = 9 then
        (if 0 < tabsize
         then replicate (tabsize - col mod tabsize) 32 @
              expandtabs_from tabsize (col + (tabsize - col mod tabsize)) s
         else expandtabs_from tabsize col s)
      else c # expandtabs_from tabsize (if c = 10 \<or> c = 13 then 0 else col + 1) s)"

definition expandtabs :: "nat \<Rightarrow> pystr \<Rightarrow> pystr" where
  "expandtabs tabsize s = expandtabs_from tabsize 0 s"

text \<open>\<^verbatim>\<open>s.replace(pat, "")\<close> for a non-empty \<open>pat\<close>: the non-overlapping occurrences,
  from the left, are removed.\<close>

fun remove_all :: "pystr \<Rightarrow> pystr \<Rightarrow> pystr" where
  "remove_all pat [] = []"
| "remove_all pat (c # s) =
     (if pat \<noteq> [] \<and> take (length pat) (c # s) = pat
      then remove_all pat (drop (length pat) (c # s))
      else c # remove_all pat s)"

subsection \<open>Errors\<close>

datatype error = ValueError | IndexError | KeyError | ZeroDivisionError

subsection \<open>Data model\<close>

datatype MindMapNode = MindMapNode (mm_title: pystr) (mm_children: "MindMapNode list")

text \<open>\<^verbatim>\<open>_RenderNode\<close> without its mutable \<^verbatim>\<open>x\<close> and \<^verbatim>\<open>y\<close>, which are in the store.\<close>

datatype RenderNode = RenderNode
  (node_id: nat) (title: pystr) (depth: nat) (children: "RenderNode list")
  (lines: "pystr list") (width: rat) (height: rat)

record PositionedNode =
  p_node_id :: nat
  p_title :: pystr
  p_lines :: "pystr list"
  p_depth :: nat
  p_x :: rat
  p_y :: rat
  p_width :: rat
  p_height :: rat

record MindMapLayout =
  l_width :: rat
  l_height :: rat
  l_nodes :: "PositionedNode list"
  l_edges :: "(nat \<times> nat) list"

definition H_STEP :: rat where "H_STEP = 420"
definition V_GAP :: rat where "V_GAP = 26"
definition TOP_LEVEL_GAP :: rat where "TOP_LEVEL_GAP = 48"
definition MARGIN :: rat where "MARGIN = 130"
definition MIN_NODE_WIDTH :: rat where "MIN_NODE_WIDTH = 135"
definition MAX_NODE_WIDTH :: rat where "MAX_NODE_WIDTH = 360"
definition LINE_HEIGHT :: rat where "LINE_HEIGHT = 16"
definition NODE_PADDING_X :: rat where "NODE_PADDING_X = 28"
definition NODE_PADDING_Y :: rat where "NODE_PADDING_Y = 14"

subsection \<open>Text wrapping\<close>

text \<open>\<^verbatim>\<open>[s[i : i + k] for i in range(0, len(s), k)]\<close> for a positive step \<open>k\<close>.\<close>

function chunk_list :: "nat \<Rightarrow> 'a list \<Rightarrow> 'a list list" where
  "chunk_list k s = (if k = 0 \<or> s = [] then [] else take k s # chunk_list k (drop k s))"
  by pat_completeness auto
termination
  by (relation "measure (\<lambda>(k, s). length s)") auto

text \<open>The same comprehension for any integer step: \<^verbatim>\<open>range\<close> raises on a zero step and is
  empty on a negative one.\<close>

definition chunks :: "pystr \<Rightarrow> int \<Rightarrow> error + pystr list" where
  "chunks s max_chars =
     (if max_chars = 0 then Inl ValueError
      else if max_chars < 0 then Inr []
      else Inr (chunk_list (nat max_chars) s))"

text \<open>One round of the loop over the words; the state is \<open>(out, current)\<close>, \<open>out\<close> being the list \<^verbatim>\<open>lines\<close>.\<close>

definition wrap_word :: "int \<Rightarrow> pystr list \<times> pystr \<Rightarrow> pystr \<Rightarrow> error + pystr list \<times> pystr" where
  "wrap_word max_chars st word =
     (case st of (out, current) \<Rightarrow>
        if int (length word) > max_chars then
          (case chunks word max_chars of
             Inl e \<Rightarrow> Inl e
           | Inr cs \<Rightarrow> Inr ((if current \<noteq> [] then out @ [current] else out) @ cs, []))
        else if current = [] then Inr (out, word)
        else if int (length (current @ [32] @ word)) \<le> max_chars
             then Inr (out, current @ [32] @ word)
             else Inr (out @ [current], word))"

fun wrap_words :: "int \<Rightarrow> pystr list \<Rightarrow> pystr list \<times> pystr \<Rightarrow> error + pystr list \<times> pystr" where
  "wrap_words max_chars [] st = Inr st"
| "wrap_words max_chars (word # words) st =
     (case wrap_word max_chars st word of
        Inl e \<Rightarrow> Inl e
      | Inr st' \<Rightarrow> wrap_words max_chars words st')"

definition wrap_text :: "pystr \<Rightarrow> int \<Rightarrow> error + pystr list" where
  "wrap_text text0 max_chars =
     (let text = strip text0
      in if text = [] then Inr [[]]
         else if 32 \<notin> set text \<and> int (length text) > max_chars then
           (case chunks text max_chars of
              Inl e \<Rightarrow> Inl e
            | Inr cs \<Rightarrow> Inr (take 6 cs))
         else
           (case wrap_words max_chars (split_ws text) ([], []) of
              Inl e \<Rightarrow> Inl e
            | Inr (out, current) \<Rightarrow>
                Inr (take 6 (if current \<noteq> [] then out @ [current] else out))))"


subsection \<open>Text cleaning and the two line patterns\<close>

text \<open>
  \<^verbatim>\<open>re.sub(r"\[(.*?)\]\((.*?)\)", r"\1", s)\<close>. After an opening bracket, the lazy first group
  ends at the first \<^verbatim>\<open>](\<close>, the lazy second group at the first closing parenthesis after
  it, and neither group crosses a newline (code point 10), which \<^verbatim>\<open>.\<close> does not match.
  When no closing parenthesis follows the first \<^verbatim>\<open>](\<close> on the line, none follows a later
  one either, so the first one decides.
\<close>

fun scan_label :: "pystr \<Rightarrow> pystr \<Rightarrow> (pystr \<times> pystr) option" where
  "scan_label acc [] = None"
| "scan_label acc [c] = None"
| "scan_label acc (c # d # s) =
     (if c = 93 \<and> d = 40 then Some (acc, s)
      else if c = 10 then None
      else scan_label (acc @ [c]) (d # s))"

fun scan_url :: "pystr \<Rightarrow> pystr option" where
  "scan_url [] = None"
| "scan_url (c # s) = (if c = 41 then Some s else if c = 10 then None else scan_url s)"

definition match_link :: "pystr \<Rightarrow> (pystr \<times> pystr) option" where
  "match_link s =
     (case scan_label [] s of
        None \<Rightarrow> None
      | Some (label, r) \<Rightarrow> (case scan_url r of None \<Rightarrow> None | Some rest \<Rightarrow> Some (label, rest)))"

lemma scan_label_length: "scan_label acc s = Some (label, r) \<Longrightarrow> length r < length s"
  by (induction acc s rule: scan_label.induct) (auto split: if_splits)

lemma scan_url_length: "scan_url s = Some r \<Longrightarrow> length r < length s"
  by (induction s rule: scan_url.induct) (auto split: if_splits)

lemma match_link_length: "match_link s = Some (label, rest) \<Longrightarrow> length rest < length s"
  unfolding match_link_def
  by (auto split: option.splits dest!: scan_label_length scan_url_length)

function sub_links :: "pystr \<Rightarrow> pystr" where
  "sub_links [] = []"
| "sub_links (c # s) =
     (if c = 91 then
        (case match_link s of
           Some (label, rest) \<Rightarrow> label @ sub_links rest
         | None \<Rightarrow> c # sub_links s)
      else c # sub_links s)"
  by pat_completeness auto
termination
  by (relation "measure length") (auto dest: match_link_length)

text \<open>\<^verbatim>\<open>re.sub(r"<[^>]+>", "", s)\<close>: an opening angle, at least one character that is not a
  closing angle, and the first closing angle after them.\<close>

fun after_gt :: "pystr \<Rightarrow> pystr option" where
  "after_gt [] = None"
| "after_gt (c # s) = (if c = 62 then Some s else after_gt s)"

definition match_tag :: "pystr \<Rightarrow> pystr option" where
  "match_tag s = (case s of [] \<Rightarrow> None | c # s' \<Rightarrow> if c = 62 then None else after_gt s')"

lemma after_gt_length: "after_gt s = Some r \<Longrightarrow> length r < length s"
  by (induction s) (auto split: if_splits)

lemma match_tag_length: "match_tag s = Some r \<Longrightarrow> length r < length s"
  unfolding match_tag_def
  by (auto split: list.splits if_splits dest!: after_gt_length)

function sub_tags :: "pystr \<Rightarrow> pystr" where
  "sub_tags [] = []"
| "sub_tags (c # s) =
     (if c = 60 then
        (case match_tag s of Some rest \<Rightarrow> sub_tags rest | None \<Rightarrow> c # sub_tags s)
      else c # sub_tags s)"
  by pat_completeness auto
termination
  by (relation "measure length") (auto dest: match_tag_length)

text \<open>\<^verbatim>\<open>re.sub(r"\s+", " ", s)\<close>.\<close>

function collapse_ws :: "pystr \<Rightarrow> pystr" where
  "collapse_ws [] = []"
| "collapse_ws (c # s) =
     (if is_space c then 32 # collapse_ws (dropWhile is_space s) else c # collapse_ws s)"
  by pat_completeness auto
termination
  by (relation "measure length") (auto simp: le_imp_less_Suc length_dropWhile_le)

definition clean_text :: "pystr \<Rightarrow> pystr" where
  "clean_text text =
     (let cleaned = strip text;
          cleaned = sub_links cleaned;
          cleaned = remove_all (py [CHR 0x60]) cleaned;
          cleaned = remove_all (py ''**'') cleaned;
          cleaned = remove_all (py ''__'') cleaned;
          cleaned = remove_all (py ''*'') cleaned;
          cleaned = sub_tags cleaned;
          cleaned = strip (collapse_ws cleaned)
      in cleaned)"

text \<open>
  \<^verbatim>\<open>_BULLET_RE = ^(\s*)[-*]\s+(.*)$\<close> and \<^verbatim>\<open>_HEADING_RE = ^#{1,6}\s+(.*)$\<close>, matched at the
  start of a line that \<^verbatim>\<open>splitlines\<close> produced, which holds no newline. The greedy
  quantifiers never have to give characters back: what follows \<^verbatim>\<open>\s*\<close> and \<^verbatim>\<open>#{1,6}\<close> cannot
  begin with a character of the run. A match is returned as its groups.
\<close>

definition bullet_match :: "pystr \<Rightarrow> (pystr \<times> pystr) option" where
  "bullet_match line =
     (case dropWhile is_space line of
        [] \<Rightarrow> None
      | c # r \<Rightarrow>
          if (c = 45 \<or> c = 42) \<and> r \<noteq> [] \<and> is_space (hd r)
          then Some (takeWhile is_space line, dropWhile is_space r)
          else None)"

definition heading_match :: "pystr \<Rightarrow> pystr option" where
  "heading_match line =
     (let n = length (takeWhile (\<lambda>c. c = 35) line);
          r = dropWhile (\<lambda>c. c = 35) line
      in if 1 \<le> n \<and> n \<le> 6 \<and> r \<noteq> [] \<and> is_space (hd r)
         then Some (dropWhile is_space r)
         else None)"

subsection \<open>The outline parser\<close>

text \<open>Truth value of an optional string: \<^verbatim>\<open>None\<close> and the empty string are false.\<close>

definition truthy :: "pystr option \<Rightarrow> bool" where
  "truthy t \<longleftrightarrow> (case t of None \<Rightarrow> False | Some s \<Rightarrow> s \<noteq> [])"

text \<open>One round of the loop over the lines; the state is \<open>(heading_title, bullets)\<close>.\<close>

definition scan_line ::
  "pystr option \<times> (nat \<times> pystr) list \<Rightarrow> pystr \<Rightarrow> pystr option \<times> (nat \<times> pystr) list" where
  "scan_line st raw_line =
     (case st of (heading_title, bullets) \<Rightarrow>
        let heading_title' =
              (case heading_match (strip raw_line) of
                 Some g \<Rightarrow> if \<not> truthy heading_title then Some (clean_text g) else heading_title
               | None \<Rightarrow> heading_title)
        in case bullet_match raw_line of
             None \<Rightarrow> (heading_title', bullets)
           | Some (g1, g2) \<Rightarrow>
               let indent = length (expandtabs 2 g1);
                   text = clean_text g2
               in if text \<noteq> [] then (heading_title', bullets @ [(indent, text)])
                  else (heading_title', bullets))"

definition scan_lines :: "pystr \<Rightarrow> pystr option \<times> (nat \<times> pystr) list" where
  "scan_lines markdown = foldl scan_line (None, []) (splitlines markdown)"

text \<open>\<^verbatim>\<open>min\<close> of a sequence raises on the empty one.\<close>

definition py_min :: "'a::linorder list \<Rightarrow> error + 'a" where
  "py_min xs = (case xs of [] \<Rightarrow> Inl ValueError | x # r \<Rightarrow> Inr (fold min r x))"

definition py_max :: "'a::linorder list \<Rightarrow> error + 'a" where
  "py_max xs = (case xs of [] \<Rightarrow> Inl ValueError | x # r \<Rightarrow> Inr (fold max r x))"

text \<open>
  The stack of (depth, node) pairs, top first. In the source a stack entry refers to a
  node that is already the last child of the entry below it, and later appends reach it
  through that reference. The model keeps each open node with the children it has so
  far and links it into the entry below when it is popped, or at the end of the loop;
  the children lists are read only after the loop, where both give the same tree.
\<close>

type_synonym frame = "int \<times> MindMapNode"

text \<open>\<^verbatim>\<open>while len(stack) > 1 and depth <= stack[-1][0]: stack.pop()\<close>\<close>

fun unwind :: "int \<Rightarrow> frame list \<Rightarrow> frame list" where
  "unwind d ((d1, n) # (d2, MindMapNode t cs) # rest) =
     (if d \<le> d1 then unwind d ((d2, MindMapNode t (cs @ [n])) # rest)
      else (d1, n) # (d2, MindMapNode t cs) # rest)"
| "unwind d stack = stack"

text \<open>One round of the loop over the bullets; \<^verbatim>\<open>stack[-1]\<close> raises on an empty stack.\<close>

definition push_bullet :: "frame list \<Rightarrow> int \<times> pystr \<Rightarrow> error + frame list" where
  "push_bullet stack b =
     (case b of (d, text) \<Rightarrow>
        case unwind d stack of
          [] \<Rightarrow> Inl IndexError
        | f # rest \<Rightarrow> Inr ((d, MindMapNode text []) # f # rest))"

fun push_bullets :: "frame list \<Rightarrow> (int \<times> pystr) list \<Rightarrow> error + frame list" where
  "push_bullets stack [] = Inr stack"
| "push_bullets stack (b # bs) =
     (case push_bullet stack b of Inl e \<Rightarrow> Inl e | Inr stack' \<Rightarrow> push_bullets stack' bs)"

text \<open>The node at the bottom of the stack once every open node is linked.\<close>

fun bottom_node :: "frame list \<Rightarrow> error + MindMapNode" where
  "bottom_node [] = Inl IndexError"
| "bottom_node [(d, n)] = Inr n"
| "bottom_node ((d1, n) # (d2, MindMapNode t cs) # rest) =
     bottom_node ((d2, MindMapNode t (cs @ [n])) # rest)"

definition build_tree :: "(int \<times> pystr) list \<Rightarrow> error + MindMapNode" where
  "build_tree normalized =
     (case push_bullets [(-1, MindMapNode (py ''__pseudo__'') [])] normalized of
        Inl e \<Rightarrow> Inl e
      | Inr stack \<Rightarrow> bottom_node stack)"

definition parse_mind_map_markdown :: "pystr \<Rightarrow> error + MindMapNode option" where
  "parse_mind_map_markdown markdown =
     (case scan_lines markdown of (heading_title, bullets) \<Rightarrow>
        if bullets = [] then Inr None
        else
          case py_min (map fst bullets) of
            Inl e \<Rightarrow> Inl e
          | Inr min_indent \<Rightarrow>
              let normalized = map (\<lambda>(indent, text). (int ((indent - min_indent) div 2), text)) bullets
              in case build_tree normalized of
                   Inl e \<Rightarrow> Inl e
                 | Inr pseudo_root \<Rightarrow>
                     (case mm_children pseudo_root of
                        [c] \<Rightarrow> Inr (Some c)
                      | cs \<Rightarrow>
                          Inr (Some (MindMapNode
                            (if truthy heading_title then the heading_title else py ''Mind Map'')
                            cs))))"


subsection \<open>The tree decorator\<close>

text \<open>\<^verbatim>\<open>max((len(line) for line in wrapped), default=0)\<close>\<close>

definition max_len :: "pystr list \<Rightarrow> nat" where
  "max_len wrapped = fold max (map length wrapped) 0"

text \<open>\<^verbatim>\<open>visit\<close> with the counter \<^verbatim>\<open>counter["id"]\<close> passed in and returned; \<open>d\<close> is its
  argument \<^verbatim>\<open>depth\<close>.\<close>

fun visit :: "MindMapNode \<Rightarrow> nat \<Rightarrow> nat \<Rightarrow> error + RenderNode \<times> nat"
  and visit_children :: "MindMapNode list \<Rightarrow> nat \<Rightarrow> nat \<Rightarrow> error + RenderNode list \<times> nat" where
  "visit (MindMapNode t cs) d counter =
     (let nid = counter;
          counter1 = counter + 1
      in case wrap_text t (max 14 (24 - int d)) of
           Inl e \<Rightarrow> Inl e
         | Inr wrapped \<Rightarrow>
             let text_width = of_nat (max_len wrapped) * (34 / 5);
                 w = max MIN_NODE_WIDTH (min MAX_NODE_WIDTH (text_width + NODE_PADDING_X));
                 h = max 40 (NODE_PADDING_Y + of_nat (length wrapped) * LINE_HEIGHT)
             in case visit_children cs (d + 1) counter1 of
                  Inl e \<Rightarrow> Inl e
                | Inr (kids, counter2) \<Rightarrow> Inr (RenderNode nid t d kids wrapped w h, counter2))"
| "visit_children [] d counter = Inr ([], counter)"
| "visit_children (c # cs) d counter =
     (case visit c d counter of
        Inl e \<Rightarrow> Inl e
      | Inr (k, counter1) \<Rightarrow>
          (case visit_children cs d counter1 of
             Inl e \<Rightarrow> Inl e
           | Inr (ks, counter2) \<Rightarrow> Inr (k # ks, counter2)))"

definition decorate_tree :: "MindMapNode \<Rightarrow> error + RenderNode" where
  "decorate_tree node = (case visit node 0 0 of Inl e \<Rightarrow> Inl e | Inr (out, counter) \<Rightarrow> Inr out)"

subsection \<open>The layout engine\<close>

fun subtree_height :: "RenderNode \<Rightarrow> rat" where
  "subtree_height (RenderNode i t d cs ls w h) =
     (if cs = [] then h
      else max h (sum_list (map subtree_height cs) + V_GAP * (of_nat (length cs) - 1)))"

text \<open>One round of the loop of \<^verbatim>\<open>_split_top_level_children\<close>; the state is
  \<open>(left, right, left_height, right_height)\<close>.\<close>

definition split_step ::
  "RenderNode list \<times> RenderNode list \<times> rat \<times> rat \<Rightarrow> RenderNode \<Rightarrow>
   RenderNode list \<times> RenderNode list \<times> rat \<times> rat" where
  "split_step st child =
     (case st of (left, right, left_height, right_height) \<Rightarrow>
        let h = subtree_height child
        in if left_height \<le> right_height
           then (left @ [child], right, left_height + h, right_height)
           else (left, right @ [child], left_height, right_height + h))"

definition split_top_level_children :: "RenderNode list \<Rightarrow> RenderNode list \<times> RenderNode list" where
  "split_top_level_children cs =
     (case foldl split_step ([], [], 0, 0) cs of (left, right, left_height, right_height) \<Rightarrow>
        case (if left = [] then (take 1 right, drop 1 right) else (left, right)) of (left1, right1) \<Rightarrow>
          case (if right1 = [] then (take 1 left1, drop 1 left1) else (right1, left1)) of (right2, left2) \<Rightarrow>
            (left2, right2))"

text \<open>The store of the mutable fields: object \<open>i\<close> has \<^verbatim>\<open>(x, y) = s i\<close>; a fresh
  \<^verbatim>\<open>_RenderNode\<close> has \<^verbatim>\<open>x = y = 0.0\<close>.\<close>

type_synonym store = "nat \<Rightarrow> rat \<times> rat"

definition fresh_store :: store where
  "fresh_store = (\<lambda>i. (0, 0))"

definition set_x :: "nat \<Rightarrow> rat \<Rightarrow> store \<Rightarrow> store" where
  "set_x i v s = s(i := (v, snd (s i)))"

definition set_y :: "nat \<Rightarrow> rat \<Rightarrow> store \<Rightarrow> store" where
  "set_y i v s = s(i := (fst (s i), v))"

text \<open>\<^verbatim>\<open>sum(xs) / len(xs)\<close> raises on the empty list.\<close>

definition mean :: "rat list \<Rightarrow> error + rat" where
  "mean xs = (if xs = [] then Inl ZeroDivisionError else Inr (sum_list xs / of_nat (length xs)))"

text \<open>\<^verbatim>\<open>_place_subtree\<close>; \<open>place_children\<close> is its loop, with the state
  \<open>(start, child_centers)\<close> and the store.\<close>

fun place_subtree :: "RenderNode \<Rightarrow> int \<Rightarrow> int \<Rightarrow> rat \<Rightarrow> store \<Rightarrow> error + store"
  and place_children ::
    "RenderNode list \<Rightarrow> int \<Rightarrow> int \<Rightarrow> rat \<Rightarrow> rat list \<Rightarrow> store \<Rightarrow> error + store \<times> rat list" where
  "place_subtree (RenderNode i t d0 cs ls w h) side d center_y s =
     (let s1 = set_x i (of_int side * of_int d * H_STEP) s
      in if cs = [] then Inr (set_y i center_y s1)
         else
           let total = sum_list (map subtree_height cs) + V_GAP * (of_nat (length cs) - 1);
               start = center_y - total / 2
           in case place_children cs side (d + 1) start [] s1 of
                Inl e \<Rightarrow> Inl e
              | Inr (s2, child_centers) \<Rightarrow>
                  (case mean child_centers of
                     Inl e \<Rightarrow> Inl e
                   | Inr m \<Rightarrow> Inr (set_y i m s2)))"
| "place_children [] side d start child_centers s = Inr (s, child_centers)"
| "place_children (c # cs) side d start child_centers s =
     (let child_height = subtree_height c;
          child_center = start + child_height / 2
      in case place_subtree c side d child_center s of
           Inl e \<Rightarrow> Inl e
         | Inr s1 \<Rightarrow>
             place_children cs side d (start + child_height + V_GAP)
               (child_centers @ [snd (s1 (node_id c))]) s1)"

text \<open>\<^verbatim>\<open>_collect_nodes\<close>; the state of \<^verbatim>\<open>dfs\<close> is \<open>(nodes, edges)\<close>.\<close>

definition positioned :: "store \<Rightarrow> RenderNode \<Rightarrow> PositionedNode" where
  "positioned s n =
     \<lparr>p_node_id = node_id n, p_title = title n, p_lines = lines n, p_depth = depth n,
      p_x = fst (s (node_id n)), p_y = snd (s (node_id n)),
      p_width = width n, p_height = height n\<rparr>"

fun dfs ::
    "store \<Rightarrow> RenderNode \<Rightarrow> PositionedNode list \<times> (nat \<times> nat) list \<Rightarrow>
     PositionedNode list \<times> (nat \<times> nat) list"
  and dfs_children ::
    "store \<Rightarrow> nat \<Rightarrow> RenderNode list \<Rightarrow> PositionedNode list \<times> (nat \<times> nat) list \<Rightarrow>
     PositionedNode list \<times> (nat \<times> nat) list" where
  "dfs s (RenderNode i t d cs ls w h) st =
     (case st of (nodes, edges) \<Rightarrow>
        dfs_children s i cs (nodes @ [positioned s (RenderNode i t d cs ls w h)], edges))"
| "dfs_children s parent [] st = st"
| "dfs_children s parent (c # cs) st =
     (case st of (nodes, edges) \<Rightarrow>
        dfs_children s parent cs (dfs s c (nodes, edges @ [(parent, node_id c)])))"

definition collect_nodes :: "store \<Rightarrow> RenderNode \<Rightarrow> PositionedNode list \<times> (nat \<times> nat) list" where
  "collect_nodes s rnode = dfs s rnode ([], [])"

text \<open>\<^verbatim>\<open>_normalize_bounds\<close> returns the shifted nodes with the canvas size.\<close>

definition normalize_bounds :: "PositionedNode list \<Rightarrow> error + PositionedNode list \<times> rat \<times> rat" where
  "normalize_bounds nodes =
     (case py_min (map (\<lambda>n. p_x n - p_width n / 2) nodes) of Inl e \<Rightarrow> Inl e | Inr min_x \<Rightarrow>
      case py_max (map (\<lambda>n. p_x n + p_width n / 2) nodes) of Inl e \<Rightarrow> Inl e | Inr max_x \<Rightarrow>
      case py_min (map (\<lambda>n. p_y n - p_height n / 2) nodes) of Inl e \<Rightarrow> Inl e | Inr min_y \<Rightarrow>
      case py_max (map (\<lambda>n. p_y n + p_height n / 2) nodes) of Inl e \<Rightarrow> Inl e | Inr max_y \<Rightarrow>
        let shift_x = MARGIN - min_x;
            shift_y = MARGIN - min_y;
            nodes' = map (\<lambda>n. n\<lparr>p_x := p_x n + shift_x, p_y := p_y n + shift_y\<rparr>) nodes
        in Inr (nodes', (max_x - min_x) + MARGIN * 2, (max_y - min_y) + MARGIN * 2))"

text \<open>The loop of \<^verbatim>\<open>place_side\<close>, with the state \<open>start\<close> and the store.\<close>

fun place_side_loop :: "RenderNode list \<Rightarrow> int \<Rightarrow> rat \<Rightarrow> store \<Rightarrow> error + store" where
  "place_side_loop [] side start s = Inr s"
| "place_side_loop (c # cs) side start s =
     (let child_h = subtree_height c;
          center = start + child_h / 2
      in case place_subtree c side 1 center s of
           Inl e \<Rightarrow> Inl e
         | Inr s1 \<Rightarrow> place_side_loop cs side (start + child_h + TOP_LEVEL_GAP) s1)"

definition place_side :: "RenderNode list \<Rightarrow> int \<Rightarrow> store \<Rightarrow> error + store" where
  "place_side cs side s =
     (if cs = [] then Inr s
      else
        let total = sum_list (map subtree_height cs) + TOP_LEVEL_GAP * (of_nat (length cs) - 1);
            start = - total / 2
        in place_side_loop cs side start s)"

definition place_root :: "RenderNode \<Rightarrow> error + store" where
  "place_root rnode =
     (let s = set_y (node_id rnode) 0 (set_x (node_id rnode) 0 fresh_store)
      in if children rnode \<noteq> [] then
           (case split_top_level_children (children rnode) of (left_children, right_children) \<Rightarrow>
              case place_side left_children (- 1) s of
                Inl e \<Rightarrow> Inl e
              | Inr s1 \<Rightarrow> place_side right_children 1 s1)
         else Inr s)"

definition compute_layout :: "MindMapNode \<Rightarrow> error + MindMapLayout" where
  "compute_layout root_node =
     (case decorate_tree root_node of Inl e \<Rightarrow> Inl e | Inr rnode \<Rightarrow>
      case place_root rnode of Inl e \<Rightarrow> Inl e | Inr s \<Rightarrow>
      case collect_nodes s rnode of (nodes, edges) \<Rightarrow>
      case normalize_bounds nodes of Inl e \<Rightarrow> Inl e | Inr (nodes', w, h) \<Rightarrow>
        Inr \<lparr>l_width = w, l_height = h, l_nodes = nodes', l_edges = edges\<rparr>)"


subsection \<open>The renderers\<close>

text \<open>
  Both renderers are modelled up to the primitives they emit. The vector graphic is the
  list of its elements with their numeric attributes; writing the elements as text (the
  two-decimal formatting of the numbers, the concatenation) is not modelled. The page
  drawing is the drawing object of the external drawing library: its size, its shapes in
  the order they were added, and the scale factors of its transform. Attributes that are
  the same for every element (stroke widths, fonts, corner radii) are left out.
\<close>

definition fills :: "pystr list" where
  "fills = [py ''#dbeafe'', py ''#e2e8f0'', py ''#fef3c7'', py ''#dcfce7'', py ''#fee2e2'', py ''#ede9fe'']"

definition strokes :: "pystr list" where
  "strokes = [py ''#1d4ed8'', py ''#334155'', py ''#b45309'', py ''#166534'', py ''#b91c1c'', py ''#6d28d9'']"

definition palette :: "nat \<Rightarrow> pystr \<times> pystr" where
  "palette d = (let idx = min d (length fills - 1) in (fills ! idx, strokes ! idx))"

text \<open>\<^verbatim>\<open>{node.node_id: node for node in layout.nodes}\<close>: a later node replaces an earlier
  one with the same key; \<^verbatim>\<open>by_id[k]\<close> raises on a missing key.\<close>

definition by_id_of :: "PositionedNode list \<Rightarrow> nat \<rightharpoonup> PositionedNode" where
  "by_id_of nodes = map_of (rev (map (\<lambda>n. (p_node_id n, n)) nodes))"

definition lookup :: "(nat \<rightharpoonup> PositionedNode) \<Rightarrow> nat \<Rightarrow> error + PositionedNode" where
  "lookup by_id k = (case by_id k of None \<Rightarrow> Inl KeyError | Some n \<Rightarrow> Inr n)"

text \<open>\<^verbatim>\<open>int(v)\<close> of a float: truncation towards zero.\<close>

definition py_int :: "rat \<Rightarrow> int" where
  "py_int v = (if 0 \<le> v then \<lfloor>v\<rfloor> else \<lceil>v\<rceil>)"

text \<open>\<^verbatim>\<open>html.escape(s, quote=False)\<close>\<close>

definition html_escape :: "pystr \<Rightarrow> pystr" where
  "html_escape s =
     concat (map (\<lambda>c. if c = 38 then py ''&amp;'' else if c = 60 then py ''&lt;''
                        else if c = 62 then py ''&gt;'' else [c]) s)"

datatype svg_part =
    SvgOpen int int
  | SvgBackground
  | SvgLine rat rat rat rat
  | SvgRect rat rat rat rat pystr pystr
  | SvgTextOpen rat rat
  | SvgTspan rat rat pystr
  | SvgTextClose
  | SvgClose

text \<open>\<^verbatim>\<open>(len(node.lines) - 1) * (LINE_HEIGHT / 2.0)\<close> below \<^verbatim>\<open>node.y\<close>.\<close>

definition base_y :: "PositionedNode \<Rightarrow> rat" where
  "base_y node = p_y node - of_int (int (length (p_lines node)) - 1) * (LINE_HEIGHT / 2)"

fun svg_edges :: "(nat \<rightharpoonup> PositionedNode) \<Rightarrow> (nat \<times> nat) list \<Rightarrow> svg_part list \<Rightarrow> error + svg_part list" where
  "svg_edges by_id [] parts = Inr parts"
| "svg_edges by_id ((parent_id, child_id) # es) parts =
     (case lookup by_id parent_id of Inl e \<Rightarrow> Inl e | Inr parent \<Rightarrow>
      case lookup by_id child_id of Inl e \<Rightarrow> Inl e | Inr child \<Rightarrow>
        svg_edges by_id es
          (parts @ [SvgLine (p_x parent) (p_y parent) (p_x child) (p_y child)]))"

definition svg_node :: "PositionedNode \<Rightarrow> svg_part list" where
  "svg_node node =
     (case palette (p_depth node) of (fill, stroke) \<Rightarrow>
        [SvgRect (p_x node - p_width node / 2) (p_y node - p_height node / 2)
           (p_width node) (p_height node) fill stroke,
         SvgTextOpen (p_x node) (base_y node)] @
        map (\<lambda>(idx, line). SvgTspan (p_x node) (if idx = 0 then 0 else LINE_HEIGHT) (html_escape line))
          (enumerate 0 (p_lines node)) @
        [SvgTextClose])"

definition render_mind_map_svg :: "pystr \<Rightarrow> error + svg_part list option" where
  "render_mind_map_svg markdown =
     (case parse_mind_map_markdown markdown of
        Inl e \<Rightarrow> Inl e
      | Inr None \<Rightarrow> Inr None
      | Inr (Some root_node) \<Rightarrow>
          (case compute_layout root_node of
             Inl e \<Rightarrow> Inl e
           | Inr layout \<Rightarrow>
               let by_id = by_id_of (l_nodes layout);
                   parts = [SvgOpen (py_int (l_width layout)) (py_int (l_height layout)), SvgBackground]
               in case svg_edges by_id (l_edges layout) parts of
                    Inl e \<Rightarrow> Inl e
                  | Inr parts1 \<Rightarrow>
                      Inr (Some (parts1 @ concat (map svg_node (l_nodes layout)) @ [SvgClose]))))"

datatype shape =
    Line rat rat rat rat
  | Rect rat rat rat rat pystr pystr
  | String rat rat pystr

record Drawing =
  d_width :: rat
  d_height :: rat
  d_contents :: "shape list"
  d_scale :: "rat \<times> rat"

fun drawing_edges :: "rat \<Rightarrow> (nat \<rightharpoonup> PositionedNode) \<Rightarrow> (nat \<times> nat) list \<Rightarrow> shape list \<Rightarrow> error + shape list" where
  "drawing_edges H by_id [] contents = Inr contents"
| "drawing_edges H by_id ((parent_id, child_id) # es) contents =
     (case lookup by_id parent_id of Inl e \<Rightarrow> Inl e | Inr parent \<Rightarrow>
      case lookup by_id child_id of Inl e \<Rightarrow> Inl e | Inr child \<Rightarrow>
        drawing_edges H by_id es
          (contents @ [Line (p_x parent) (H - p_y parent) (p_x child) (H - p_y child)]))"

definition drawing_node :: "rat \<Rightarrow> PositionedNode \<Rightarrow> shape list" where
  "drawing_node H node =
     (case palette (p_depth node) of (fill, stroke) \<Rightarrow>
        Rect (p_x node - p_width node / 2) (H - (p_y node + p_height node / 2))
          (p_width node) (p_height node) fill stroke #
        map (\<lambda>(idx, text). String (p_x node) (H - (base_y node + of_nat idx * LINE_HEIGHT) - 4) text)
          (enumerate 0 (p_lines node)))"

text \<open>Truth value of an optional number: \<^verbatim>\<open>None\<close> and zero are false.\<close>

definition given :: "rat option \<Rightarrow> bool" where
  "given m \<longleftrightarrow> (case m of None \<Rightarrow> False | Some v \<Rightarrow> v \<noteq> 0)"

definition py_div :: "rat \<Rightarrow> rat \<Rightarrow> error + rat" where
  "py_div a b = (if b = 0 then Inl ZeroDivisionError else Inr (a / b))"

text \<open>The downscale at the end of \<^verbatim>\<open>render_mind_map_drawing\<close>. \<^verbatim>\<open>drawing.scale(s, s)\<close>
  multiplies the scale factors of the drawing's transform.\<close>

definition fit_drawing :: "rat option \<Rightarrow> rat option \<Rightarrow> Drawing \<Rightarrow> error + Drawing" where
  "fit_drawing max_width max_height drawing =
     (if given max_width \<or> given max_height then
        (case (if given max_width
               then (case py_div (the max_width) (d_width drawing) of
                       Inl e \<Rightarrow> Inl e | Inr f \<Rightarrow> Inr [1, f])
               else Inr [1]) of
           Inl e \<Rightarrow> Inl e
         | Inr factors1 \<Rightarrow>
             (case (if given max_height
                    then (case py_div (the max_height) (d_height drawing) of
                            Inl e \<Rightarrow> Inl e | Inr f \<Rightarrow> Inr (factors1 @ [f]))
                    else Inr factors1) of
                Inl e \<Rightarrow> Inl e
              | Inr factors \<Rightarrow>
                  (case py_min factors of
                     Inl e \<Rightarrow> Inl e
                   | Inr scale \<Rightarrow>
                       if scale < 1
                       then Inr (drawing\<lparr>d_scale := (fst (d_scale drawing) * scale, snd (d_scale drawing) * scale),
                                         d_width := d_width drawing * scale,
                                         d_height := d_height drawing * scale\<rparr>)
                       else Inr drawing)))
      else Inr drawing)"

definition render_mind_map_drawing :: "pystr \<Rightarrow> rat option \<Rightarrow> rat option \<Rightarrow> error + Drawing option" where
  "render_mind_map_drawing markdown max_width max_height =
     (case parse_mind_map_markdown markdown of
        Inl e \<Rightarrow> Inl e
      | Inr None \<Rightarrow> Inr None
      | Inr (Some root_node) \<Rightarrow>
          (case compute_layout root_node of
             Inl e \<Rightarrow> Inl e
           | Inr layout \<Rightarrow>
               let by_id = by_id_of (l_nodes layout)
               in case drawing_edges (l_height layout) by_id (l_edges layout) [] of
                    Inl e \<Rightarrow> Inl e
                  | Inr lines1 \<Rightarrow>
                      (case fit_drawing max_width max_height
                              \<lparr>d_width = l_width layout, d_height = l_height layout,
                               d_contents = lines1 @ concat (map (drawing_node (l_height layout)) (l_nodes layout)),
                               d_scale = (1, 1)\<rparr> of
                         Inl e \<Rightarrow> Inl e
                       | Inr drawing \<Rightarrow> Inr (Some drawing))))"


section \<open>Reference definitions\<close>

text \<open>
  Greedy word wrap, written directly: \<open>greedy_fill k cur ws\<close> are the lines made of the
  open line \<open>cur\<close> and the words \<open>ws\<close>, \<open>greedy_wrap k ws\<close> the lines made of \<open>ws\<close>
  when no line is open. A word longer than \<open>k\<close> closes the open line and is cut into
  chunks of \<open>k\<close> characters; any other word joins the open line, after one space, when
  the line stays within \<open>k\<close> characters, and opens a new line otherwise.
\<close>

fun greedy_fill :: "nat \<Rightarrow> pystr \<Rightarrow> pystr list \<Rightarrow> pystr list"
  and greedy_wrap :: "nat \<Rightarrow> pystr list \<Rightarrow> pystr list" where
  "greedy_fill k cur [] = [cur]"
| "greedy_fill k cur (w # ws) =
     (if k < length w then cur # chunk_list k w @ greedy_wrap k ws
      else if length cur + 1 + length w \<le> k then greedy_fill k (cur @ 32 # w) ws
      else cur # greedy_fill k w ws)"
| "greedy_wrap k [] = []"
| "greedy_wrap k (w # ws) =
     (if k < length w then chunk_list k w @ greedy_wrap k ws else greedy_fill k w ws)"


text \<open>The lines of a loop state \<open>(out, current)\<close> once the open line is closed.\<close>

definition flush :: "pystr list \<Rightarrow> pystr \<Rightarrow> pystr list" where
  "flush out cur = (if cur \<noteq> [] then out @ [cur] else out)"



text \<open>
  The greedy running-total balance, written directly: with the heights \<open>lh\<close> and \<open>rh\<close>
  accumulated so far on the left and on the right, the next child joins the left group
  when \<open>lh \<le> rh\<close> (a tie goes left) and the right group otherwise.
\<close>

fun greedy_sides :: "rat \<Rightarrow> rat \<Rightarrow> RenderNode list \<Rightarrow> RenderNode list \<times> RenderNode list" where
  "greedy_sides lh rh [] = ([], [])"
| "greedy_sides lh rh (c # cs) =
     (if lh \<le> rh
      then (c # fst (greedy_sides (lh + subtree_height c) rh cs),
            snd (greedy_sides (lh + subtree_height c) rh cs))
      else (fst (greedy_sides lh (rh + subtree_height c) cs),
            c # snd (greedy_sides lh (rh + subtree_height c) cs)))"


text \<open>The two repair steps that follow the loop of \<^verbatim>\<open>_split_top_level_children\<close>.\<close>

definition repair :: "RenderNode list \<times> RenderNode list \<Rightarrow> RenderNode list \<times> RenderNode list" where
  "repair g = (case g of (left, right) \<Rightarrow>
        case (if left = [] then (take 1 right, drop 1 right) else (left, right)) of (left1, right1) \<Rightarrow>
          case (if right1 = [] then (take 1 left1, drop 1 left1) else (right1, left1)) of (right2, left2) \<Rightarrow>
            (left2, right2))"


text \<open>
  The parser's result in the words of the specification. \<open>heading_texts\<close> are the cleaned
  texts of the heading lines, in document order; \<open>first_heading\<close> is the first of them,
  \<open>first_nonempty_heading\<close> the first that is not empty, and \<open>claimed_title\<close> the title
  of a synthesized root as the specification words it: the first heading found, or the
  fallback when there is no heading. \<open>recognized_bullets\<close> are the bullet lines with a
  non-empty cleaned text, with their indentation; \<open>top_level\<close> are the children of the
  pseudo-root that the stack algorithm builds from them.
\<close>

definition heading_texts :: "pystr \<Rightarrow> pystr list" where
  "heading_texts markdown =
     map clean_text (List.map_filter (\<lambda>l. heading_match (strip l)) (splitlines markdown))"

definition first_heading :: "pystr \<Rightarrow> pystr option" where
  "first_heading markdown = (case heading_texts markdown of [] \<Rightarrow> None | t # ts \<Rightarrow> Some t)"

definition claimed_title :: "pystr \<Rightarrow> pystr" where
  "claimed_title markdown = (case first_heading markdown of None \<Rightarrow> py ''Mind Map'' | Some t \<Rightarrow> t)"

definition first_nonempty_heading :: "pystr \<Rightarrow> pystr option" where
  "first_nonempty_heading markdown = find (\<lambda>t. t \<noteq> []) (heading_texts markdown)"

definition bullet_of_line :: "pystr \<Rightarrow> (nat \<times> pystr) option" where
  "bullet_of_line l =
     (case bullet_match l of
        None \<Rightarrow> None
      | Some (g1, g2) \<Rightarrow>
          if clean_text g2 = [] then None else Some (length (expandtabs 2 g1), clean_text g2))"

definition recognized_bullets :: "pystr \<Rightarrow> (nat \<times> pystr) list" where
  "recognized_bullets markdown = List.map_filter bullet_of_line (splitlines markdown)"

definition normalized_bullets :: "pystr \<Rightarrow> (int \<times> pystr) list" where
  "normalized_bullets markdown =
     (let bullets = recognized_bullets markdown; min_indent = Min (set (map fst bullets))
      in map (\<lambda>(indent, text). (int ((indent - min_indent) div 2), text)) bullets)"

definition top_level :: "pystr \<Rightarrow> MindMapNode list" where
  "top_level markdown =
     (case build_tree (normalized_bullets markdown) of Inl e \<Rightarrow> [] | Inr pseudo_root \<Rightarrow> mm_children pseudo_root)"

text \<open>A document whose first heading is a lone backquote, which cleaning removes:
  \<^verbatim>\<open>"# `\n# B\n- a\n- b"\<close>; and the outline \<^verbatim>\<open>"- A\n  - B\n  - C"\<close>.\<close>

definition two_headings_md :: pystr where
  "two_headings_md = py [CHR ''#'', CHR '' '', CHR 0x60] @ [10] @ py ''# B'' @ [10] @ py ''- a'' @ [10] @ py ''- b''"

definition outline_md :: pystr where
  "outline_md = py ''- A'' @ [10] @ py ''  - B'' @ [10] @ py ''  - C''"

text \<open>The value of \<^verbatim>\<open>heading_title\<close> after the loop over the lines \<open>ls\<close>, when it was \<open>ht\<close>
  before.\<close>

definition final_heading :: "pystr option \<Rightarrow> pystr list \<Rightarrow> pystr option" where
  "final_heading ht ls =
     (if truthy ht then ht
      else case find (\<lambda>t. t \<noteq> []) (map clean_text (List.map_filter (\<lambda>l. heading_match (strip l)) ls)) of
             Some t \<Rightarrow> Some t
           | None \<Rightarrow> if List.map_filter (\<lambda>l. heading_match (strip l)) ls = [] then ht else Some [])"

section \<open>Text wrapping: proofs\<close>

declare split_ws.simps [simp del] chunk_list.simps [simp del]

lemma chunk_list_Nil [simp]: "chunk_list k [] = []"
  by (simp add: chunk_list.simps)

lemma chunk_list_length_le: "l \<in> set (chunk_list k s) \<Longrightarrow> length l \<le> k"
proof (induction k s rule: chunk_list.induct)
  case (1 k s)
  then show ?case
    by (subst (asm) (2) chunk_list.simps) (auto split: if_splits)
qed

lemma chunk_list_nonempty: "0 < k \<Longrightarrow> s \<noteq> [] \<Longrightarrow> chunk_list k s \<noteq> []"
  by (subst chunk_list.simps) simp

lemma chunk_list_concat: "0 < k \<Longrightarrow> concat (chunk_list k s) = s"
proof (induction k s rule: chunk_list.induct)
  case (1 k s)
  then show ?case
    by (subst chunk_list.simps) auto
qed

lemma chunk_list_butlast: "l \<in> set (butlast (chunk_list k s)) \<Longrightarrow> length l = k"
proof (induction k s rule: chunk_list.induct)
  case (1 k s)
  show ?case
  proof (cases "k = 0 \<or> s = []")
    case True
    with "1.prems" show ?thesis by (auto simp: chunk_list.simps)
  next
    case False
    then have eq: "chunk_list k s = take k s # chunk_list k (drop k s)"
      by (subst chunk_list.simps) simp
    show ?thesis
    proof (cases "chunk_list k (drop k s) = []")
      case True
      with eq "1.prems" show ?thesis by simp
    next
      case ne: False
      then have "drop k s \<noteq> []" by auto
      then have "k \<le> length s" by simp
      with eq ne "1.prems" "1.IH" [OF False] show ?thesis
        by auto
    qed
  qed
qed

lemma set_butlast_take: "set (butlast (take n xs)) \<subseteq> set (butlast xs)"
proof -
  have "butlast (take n xs) = take (min n (length xs) - 1) xs"
    by (simp add: butlast_conv_take min.commute)
  moreover have "butlast xs = take (length xs - 1) xs"
    by (simp add: butlast_conv_take)
  ultimately show ?thesis
    by (metis diff_le_mono min.cobounded2 set_take_subset_set_take)
qed

lemma wrap_words_greedy:
  assumes "0 < m" "\<forall>w \<in> set ws. w \<noteq> []"
  shows "\<exists>out' cur'. wrap_words m ws (out, cur) = Inr (out', cur') \<and>
           flush out' cur' = out @ (if cur = [] then greedy_wrap (nat m) ws else greedy_fill (nat m) cur ws)"
  using assms(2)
proof (induction ws arbitrary: out cur)
  case Nil
  then show ?case by (simp add: flush_def)
next
  case (Cons w ws)
  then have w: "w \<noteq> []" and ws: "\<forall>w \<in> set ws. w \<noteq> []" by auto
  have lt: "int (length w) > m \<longleftrightarrow> nat m < length w" using assms(1) by linarith
  have le: "\<And>c. int (length (c @ [32] @ w)) \<le> m \<longleftrightarrow> length c + 1 + length w \<le> nat m"
    using assms(1) by auto
  let ?k = "nat m"
  let ?rhs = "out @ (if cur = [] then greedy_wrap ?k (w # ws) else greedy_fill ?k cur (w # ws))"
  have step: "\<exists>out' cur'. wrap_words m (w # ws) (out, cur) = Inr (out', cur') \<and> flush out' cur' = ?rhs"
    if st: "wrap_word m (out, cur) w = Inr (X, Y)"
      and eq: "X @ (if Y = [] then greedy_wrap ?k ws else greedy_fill ?k Y ws) = ?rhs" for X Y
  proof -
    from Cons.IH [OF ws, of X Y] obtain o' c' where
      r: "wrap_words m ws (X, Y) = Inr (o', c')" and
      f: "flush o' c' = X @ (if Y = [] then greedy_wrap ?k ws else greedy_fill ?k Y ws)"
      by blast
    have "wrap_words m (w # ws) (out, cur) = Inr (o', c')" using st r by simp
    with f eq show ?thesis by metis
  qed
  show ?case
  proof (cases "?k < length w")
    case True
    then have st: "wrap_word m (out, cur) w = Inr (flush out cur @ chunk_list ?k w, [])"
      using assms(1) lt by (simp add: wrap_word_def chunks_def flush_def)
    show ?thesis
      by (rule step [OF st]) (use True in \<open>simp add: flush_def\<close>)
  next
    case False
    show ?thesis
    proof (cases "cur = []")
      case True
      then have st: "wrap_word m (out, cur) w = Inr (out, w)"
        using False lt by (simp add: wrap_word_def)
      show ?thesis
        by (rule step [OF st]) (use True False w in simp)
    next
      case ne: False
      show ?thesis
      proof (cases "length cur + 1 + length w \<le> ?k")
        case True
        then have st: "wrap_word m (out, cur) w = Inr (out, cur @ [32] @ w)"
          using False lt le [of cur] ne by (simp add: wrap_word_def)
        show ?thesis
          by (rule step [OF st]) (use True False ne in simp)
      next
        case nf: False
        then have st: "wrap_word m (out, cur) w = Inr (out @ [cur], w)"
          using False lt le [of cur] ne by (simp add: wrap_word_def)
        show ?thesis
          by (rule step [OF st]) (use nf False ne w in simp)
      qed
    qed
  qed
qed

lemma chunk_list_all_le: "\<forall>l \<in> set (chunk_list k s). length l \<le> k"
  using chunk_list_length_le by blast

lemma greedy_length_le:
  "length cur \<le> k \<Longrightarrow> \<forall>l \<in> set (greedy_fill k cur ws). length l \<le> k"
  "\<forall>l \<in> set (greedy_wrap k ws). length l \<le> k"
proof (induction k cur ws and k ws rule: greedy_fill_greedy_wrap.induct)
  case (1 k cur)
  then show ?case by simp
next
  case (2 k cur w ws)
  show ?case
  proof (cases "k < length w")
    case True
    from "2.IH"(1) [OF True] "2.prems" True show ?thesis
      by (simp add: ball_Un chunk_list_all_le)
  next
    case False
    show ?thesis
    proof (cases "length cur + 1 + length w \<le> k")
      case True
      from "2.IH"(2) [OF False True] "2.prems" False True show ?thesis by simp
    next
      case nf: False
      from "2.IH"(3) [OF False nf] "2.prems" False nf show ?thesis by simp
    qed
  qed
next
  case (3 k)
  then show ?case by simp
next
  case (4 k w ws)
  show ?case
  proof (cases "k < length w")
    case True
    from "4.IH"(1) [OF True] True show ?thesis
      by (simp add: ball_Un chunk_list_all_le)
  next
    case False
    from "4.IH"(2) [OF False] False show ?thesis by simp
  qed
qed

lemma greedy_fill_nonempty: "greedy_fill k cur ws \<noteq> []"
  by (induction ws arbitrary: cur) auto

lemma greedy_wrap_nonempty: "0 < k \<Longrightarrow> ws \<noteq> [] \<Longrightarrow> \<forall>w \<in> set ws. w \<noteq> [] \<Longrightarrow> greedy_wrap k ws \<noteq> []"
  by (cases ws) (auto simp: greedy_fill_nonempty chunk_list_nonempty)

lemma dropWhile_hd_not: "dropWhile P s \<noteq> [] \<Longrightarrow> \<not> P (hd (dropWhile P s))"
  by (rule hd_dropWhile)

lemma split_ws_nonempty_words: "w \<in> set (split_ws s) \<Longrightarrow> w \<noteq> []"
proof (induction s rule: split_ws.induct)
  case (1 s)
  show ?case
  proof (cases "dropWhile is_space s = []")
    case True
    with "1.prems" show ?thesis by (subst (asm) split_ws.simps) simp
  next
    case False
    then obtain c cs where c: "dropWhile is_space s = c # cs" by (cases "dropWhile is_space s") auto
    then have "\<not> is_space c" using dropWhile_hd_not [of is_space s] by simp
    with c have tw: "takeWhile (\<lambda>c. \<not> is_space c) (dropWhile is_space s) \<noteq> []" by simp
    have "split_ws s = takeWhile (\<lambda>c. \<not> is_space c) (dropWhile is_space s) #
            split_ws (dropWhile (\<lambda>c. \<not> is_space c) (dropWhile is_space s))"
      using False by (subst split_ws.simps) (simp add: Let_def)
    with "1.prems" have "w = takeWhile (\<lambda>c. \<not> is_space c) (dropWhile is_space s) \<or>
        w \<in> set (split_ws (dropWhile (\<lambda>c. \<not> is_space c) (dropWhile is_space s)))"
      by simp
    then show ?thesis
    proof
      assume "w = takeWhile (\<lambda>c. \<not> is_space c) (dropWhile is_space s)"
      with tw show ?thesis by simp
    next
      assume "w \<in> set (split_ws (dropWhile (\<lambda>c. \<not> is_space c) (dropWhile is_space s)))"
      then show ?thesis by (rule "1.IH" [OF refl False])
    qed
  qed
qed

lemma split_ws_nonempty: "dropWhile is_space s \<noteq> [] \<Longrightarrow> split_ws s \<noteq> []"
  by (subst split_ws.simps) (simp add: Let_def)

lemma strip_Nil_iff: "strip s = [] \<longleftrightarrow> dropWhile is_space s = []"
proof
  assume "strip s = []"
  then have all: "\<forall>x \<in> set (dropWhile is_space s). is_space x"
    by (simp add: strip_def dropWhile_eq_Nil_conv)
  show "dropWhile is_space s = []"
  proof (rule ccontr)
    assume ne: "dropWhile is_space s \<noteq> []"
    then have "\<not> is_space (hd (dropWhile is_space s))" by (rule hd_dropWhile)
    moreover have "hd (dropWhile is_space s) \<in> set (dropWhile is_space s)" using ne by simp
    ultimately show False using all by blast
  qed
next
  assume a: "dropWhile is_space s = []"
  show "strip s = []" unfolding strip_def a by simp
qed

lemma strip_prefix: "\<exists>r. dropWhile is_space s = strip s @ r"
proof -
  let ?t = "dropWhile is_space s"
  have "rev (rev ?t) = rev (takeWhile is_space (rev ?t) @ dropWhile is_space (rev ?t))"
    by (simp only: takeWhile_dropWhile_id)
  then have "?t = rev (dropWhile is_space (rev ?t)) @ rev (takeWhile is_space (rev ?t))"
    by (simp only: rev_rev_ident rev_append)
  then have "?t = strip s @ rev (takeWhile is_space (rev ?t))"
    by (simp only: strip_def)
  then show ?thesis by blast
qed

lemma strip_hd_not_space: "strip s \<noteq> [] \<Longrightarrow> \<not> is_space (hd (strip s))"
proof -
  assume a: "strip s \<noteq> []"
  obtain r where r: "dropWhile is_space s = strip s @ r" using strip_prefix by blast
  then have ne: "dropWhile is_space s \<noteq> []" using a by simp
  have "hd (dropWhile is_space s) = hd (strip s)" using r a by simp
  with hd_dropWhile [OF ne] show ?thesis by simp
qed

lemma split_ws_strip_nonempty: "strip s \<noteq> [] \<Longrightarrow> split_ws (strip s) \<noteq> []"
proof -
  assume a: "strip s \<noteq> []"
  then have "\<not> is_space (hd (strip s))" by (rule strip_hd_not_space)
  with a have "dropWhile is_space (strip s) = strip s" by (cases "strip s") auto
  with a show ?thesis by (simp add: split_ws_nonempty)
qed


lemma concat_take_chunk_list: "0 < k \<Longrightarrow> concat (take n (chunk_list k s)) = take (n * k) s"
proof (induction n arbitrary: s)
  case 0
  then show ?case by simp
next
  case (Suc n)
  show ?case
  proof (cases "s = []")
    case True
    then show ?thesis by simp
  next
    case False
    then have eq: "chunk_list k s = take k s # chunk_list k (drop k s)"
      using Suc.prems by (subst chunk_list.simps) simp
    have "concat (take (Suc n) (chunk_list k s)) = take k s @ take (n * k) (drop k s)"
      using eq Suc.IH [OF Suc.prems, of "drop k s"] by simp
    also have "\<dots> = take (k + n * k) s"
      by (simp add: take_add)
    finally show ?thesis by (simp add: add.commute)
  qed
qed

lemma wrap_text_eq:
  assumes "0 < m"
  shows "wrap_text t m =
     Inr (if strip t = [] then [[]]
          else if 32 \<notin> set (strip t) \<and> m < int (length (strip t))
               then take 6 (chunk_list (nat m) (strip t))
               else take 6 (greedy_wrap (nat m) (split_ws (strip t))))"
proof -
  obtain out' cur' where
    r: "wrap_words m (split_ws (strip t)) ([], []) = Inr (out', cur')" and
    f: "flush out' cur' = greedy_wrap (nat m) (split_ws (strip t))"
    using wrap_words_greedy [OF assms, of "split_ws (strip t)" "[]" "[]"] split_ws_nonempty_words
    by auto
  from f have f': "(if cur' \<noteq> [] then out' @ [cur'] else out') = greedy_wrap (nat m) (split_ws (strip t))"
    by (simp add: flush_def)
  show ?thesis
    unfolding wrap_text_def Let_def
    using assms r f' by (simp add: chunks_def)
qed

lemma wrap_text_props:
  assumes "0 < m"
  shows "\<exists>ls. wrap_text t m = Inr ls \<and> ls \<noteq> [] \<and> length ls \<le> 6 \<and> (\<forall>l \<in> set ls. int (length l) \<le> m)"
proof -
  let ?k = "nat m"
  let ?s = "strip t"
  have k: "0 < ?k" using assms by simp
  define ls where "ls = (if ?s = [] then [[]]
          else if 32 \<notin> set ?s \<and> m < int (length ?s)
               then take 6 (chunk_list ?k ?s)
               else take 6 (greedy_wrap ?k (split_ws ?s)))"
  have eq: "wrap_text t m = Inr ls" unfolding ls_def by (rule wrap_text_eq [OF assms])
  have ne: "ls \<noteq> []"
  proof (cases "?s = []")
    case True
    then show ?thesis by (simp add: ls_def)
  next
    case False
    have "chunk_list ?k ?s \<noteq> []" using k False by (rule chunk_list_nonempty)
    moreover have "greedy_wrap ?k (split_ws ?s) \<noteq> []"
      using k split_ws_strip_nonempty [OF False] split_ws_nonempty_words
      by (intro greedy_wrap_nonempty) auto
    ultimately show ?thesis using False by (simp add: ls_def)
  qed
  have len: "length ls \<le> 6" by (simp add: ls_def)
  have "\<forall>l \<in> set ls. length l \<le> ?k"
    using chunk_list_all_le [of ?k ?s] greedy_length_le(2) [of ?k "split_ws ?s"]
    by (auto simp: ls_def dest!: in_set_takeD)
  then have "\<forall>l \<in> set ls. int (length l) \<le> m" using assms by auto
  with eq ne len show ?thesis by blast
qed


text \<open>
  Claim C7. For every title and every positive maximum line width (the decorator passes
  \<open>max 14 (24 - depth)\<close>, which is at least 14), \<open>wrap_text\<close> returns lines without
  raising: at least one line, at most six, each no longer than the width. When the
  stripped text has no space and is longer than the width, the lines are its
  consecutive chunks of the width, cut off after six: together they are the first six
  widths of the text, and every line but the last has exactly the width. Otherwise, for
  a text that is not blank, the lines are the first six lines of the greedy word wrap,
  in which a word longer than the width is cut into chunks of the width.
\<close>

theorem wrap_text_lines:
  assumes "0 < max_chars"
  shows "\<exists>ls. wrap_text text max_chars = Inr ls \<and> ls \<noteq> [] \<and> length ls \<le> 6 \<and>
           (\<forall>l \<in> set ls. int (length l) \<le> max_chars) \<and>
           (if 32 \<notin> set (strip text) \<and> max_chars < int (length (strip text))
            then ls = take 6 (chunk_list (nat max_chars) (strip text)) \<and>
                 concat ls = take (6 * nat max_chars) (strip text) \<and>
                 (\<forall>l \<in> set (butlast ls). int (length l) = max_chars)
            else strip text \<noteq> [] \<longrightarrow>
                 ls = take 6 (greedy_wrap (nat max_chars) (split_ws (strip text))))"
proof -
  let ?k = "nat max_chars"
  let ?s = "strip text"
  have k: "0 < ?k" using assms by simp
  obtain ls where eq: "wrap_text text max_chars = Inr ls" and ne: "ls \<noteq> []"
    and len: "length ls \<le> 6" and le: "\<forall>l \<in> set ls. int (length l) \<le> max_chars"
    using wrap_text_props [OF assms, of "text"] by blast
  have val: "ls = (if ?s = [] then [[]]
          else if 32 \<notin> set ?s \<and> max_chars < int (length ?s)
               then take 6 (chunk_list ?k ?s)
               else take 6 (greedy_wrap ?k (split_ws ?s)))"
    using eq wrap_text_eq [OF assms, of "text"] by simp
  have chunked: "ls = take 6 (chunk_list ?k ?s) \<and> concat ls = take (6 * ?k) ?s \<and>
      (\<forall>l \<in> set (butlast ls). int (length l) = max_chars)"
    if c: "32 \<notin> set ?s \<and> max_chars < int (length ?s)"
  proof -
    from c assms have "?s \<noteq> []" by auto
    with c val have v: "ls = take 6 (chunk_list ?k ?s)" by simp
    have "\<forall>l \<in> set (butlast ls). length l = ?k"
      using v set_butlast_take [of 6 "chunk_list ?k ?s"] chunk_list_butlast [of _ ?k ?s] by blast
    then have "\<forall>l \<in> set (butlast ls). int (length l) = max_chars" using assms by auto
    with v concat_take_chunk_list [OF k, of 6 ?s] show ?thesis by simp
  qed
  have wrapped: "ls = take 6 (greedy_wrap ?k (split_ws ?s))"
    if "\<not> (32 \<notin> set ?s \<and> max_chars < int (length ?s))" "?s \<noteq> []"
    using that val by auto
  have branch: "if 32 \<notin> set ?s \<and> max_chars < int (length ?s)
            then ls = take 6 (chunk_list ?k ?s) \<and> concat ls = take (6 * ?k) ?s \<and>
                 (\<forall>l \<in> set (butlast ls). int (length l) = max_chars)
            else ?s \<noteq> [] \<longrightarrow> ls = take 6 (greedy_wrap ?k (split_ws ?s))"
  proof (cases "32 \<notin> set ?s \<and> max_chars < int (length ?s)")
    case True
    show ?thesis unfolding if_P [OF True] by (rule chunked [OF True])
  next
    case False
    show ?thesis unfolding if_not_P [OF False] using wrapped [OF False] by blast
  qed
  from eq ne len le branch show ?thesis by blast
qed

theorem wrap_text_lines_witness:
  "(0::int) < 3 \<and> wrap_text (py ''abcdefgh'') 3 = Inr [py ''abc'', py ''def'', py ''gh'']"
proof -
  have h: "(0::int) < 3" by simp
  have s: "strip (py ''abcdefgh'') = py ''abcdefgh''"
    by (simp add: strip_def py_def is_space_def)
  have c: "32 \<notin> set (strip (py ''abcdefgh'')) \<and> 3 < int (length (strip (py ''abcdefgh'')))"
    unfolding s by (simp add: py_def)
  have v: "take 6 (chunk_list (nat 3) (strip (py ''abcdefgh''))) = [py ''abc'', py ''def'', py ''gh'']"
    unfolding s by (simp add: py_def chunk_list.simps)
  from wrap_text_lines [OF h, of "py ''abcdefgh''"] c v h show ?thesis
    by auto
qed

section \<open>Side assignment: proofs\<close>

lemma split_loop_greedy:
  "\<exists>lh' rh'. foldl split_step (l, r, lh, rh) cs =
     (l @ fst (greedy_sides lh rh cs), r @ snd (greedy_sides lh rh cs), lh', rh')"
proof (induction cs arbitrary: l r lh rh)
  case Nil
  then show ?case by simp
next
  case (Cons c cs)
  show ?case
  proof (cases "lh \<le> rh")
    case True
    then have st: "split_step (l, r, lh, rh) c = (l @ [c], r, lh + subtree_height c, rh)"
      by (simp add: split_step_def)
    from Cons.IH [of "l @ [c]" r "lh + subtree_height c" rh] st True show ?thesis by simp
  next
    case False
    then have st: "split_step (l, r, lh, rh) c = (l, r @ [c], lh, rh + subtree_height c)"
      by (simp add: split_step_def)
    from Cons.IH [of l "r @ [c]" lh "rh + subtree_height c"] st False show ?thesis by simp
  qed
qed

lemma split_eq_repair: "split_top_level_children cs = repair (greedy_sides 0 0 cs)"
proof -
  obtain lh' rh' where "foldl split_step ([], [], 0, 0) cs =
     (fst (greedy_sides 0 0 cs), snd (greedy_sides 0 0 cs), lh', rh')"
    using split_loop_greedy [of "[]" "[]" 0 0 cs] by auto
  then show ?thesis
    by (simp add: split_top_level_children_def repair_def split: prod.splits)
qed

lemma greedy_sides_length:
  "length (fst (greedy_sides lh rh cs)) + length (snd (greedy_sides lh rh cs)) = length cs"
  by (induction cs arbitrary: lh rh) auto

lemma greedy_sides_left_first: "cs \<noteq> [] \<Longrightarrow> fst (greedy_sides 0 0 cs) \<noteq> []"
  by (cases cs) auto

lemma greedy_sides_right_second:
  "0 < subtree_height c \<Longrightarrow> snd (greedy_sides 0 0 (c # d # cs)) \<noteq> []"
  by simp

lemma split_single: "split_top_level_children [c] = ([], [c])"
  by (simp add: split_eq_repair repair_def)

lemma repair_nonempty:
  assumes "2 \<le> length (fst g) + length (snd g)"
  shows "fst (repair g) \<noteq> [] \<and> snd (repair g) \<noteq> []"
proof -
  obtain l r where g: "g = (l, r)" by (cases g)
  show ?thesis
  proof (cases "l = []")
    case True
    with assms g have "2 \<le> length r" by simp
    then obtain a b rest where "r = a # b # rest"
      by (cases r; cases "tl r") auto
    with g True show ?thesis by (simp add: repair_def)
  next
    case False
    show ?thesis
    proof (cases "r = []")
      case True
      with assms g have "2 \<le> length l" by simp
      then obtain a b rest where "l = a # b # rest"
        by (cases l; cases "tl l") auto
      with g True show ?thesis by (simp add: repair_def)
    next
      case nr: False
      with g False show ?thesis by (simp add: repair_def)
    qed
  qed
qed

lemma split_both_nonempty:
  assumes "2 \<le> length cs"
  shows "fst (split_top_level_children cs) \<noteq> [] \<and> snd (split_top_level_children cs) \<noteq> []"
  unfolding split_eq_repair
  by (rule repair_nonempty) (simp add: greedy_sides_length assms)

lemma split_greedy_eq:
  assumes "\<forall>c \<in> set cs. 0 < subtree_height c" "length cs \<noteq> 1"
  shows "split_top_level_children cs = greedy_sides 0 0 cs"
proof (cases cs)
  case Nil
  then show ?thesis by (simp add: split_eq_repair repair_def)
next
  case (Cons c ds)
  with assms(2) obtain d es where ds: "ds = d # es" by (cases ds) auto
  have "0 < subtree_height c" using assms(1) Cons by simp
  then have "snd (greedy_sides 0 0 cs) \<noteq> []" unfolding Cons ds by simp
  moreover have "fst (greedy_sides 0 0 cs) \<noteq> []" unfolding Cons by simp
  ultimately show ?thesis
    by (cases "greedy_sides 0 0 cs") (simp add: split_eq_repair repair_def)
qed

text \<open>
  Claim C6. The side assignment is the greedy running-total balance: when every child
  has a positive subtree height, as every decorated node has, the two groups are those
  of \<open>greedy_sides\<close>, started with both totals at zero, except that a single child is
  moved to the right group by the repair. With two children or more both groups are
  non-empty.
\<close>

theorem split_is_greedy:
  "((\<forall>c \<in> set cs. 0 < subtree_height c) \<longrightarrow>
      split_top_level_children cs = (if length cs = 1 then ([], cs) else greedy_sides 0 0 cs)) \<and>
   (2 \<le> length cs \<longrightarrow>
      fst (split_top_level_children cs) \<noteq> [] \<and> snd (split_top_level_children cs) \<noteq> [])"
proof (intro conjI impI)
  assume pos: "\<forall>c \<in> set cs. 0 < subtree_height c"
  show "split_top_level_children cs = (if length cs = 1 then ([], cs) else greedy_sides 0 0 cs)"
  proof (cases "length cs = 1")
    case True
    then obtain c where "cs = [c]" by (cases cs) auto
    then show ?thesis by (simp add: split_single)
  next
    case False
    with split_greedy_eq [OF pos False] show ?thesis by simp
  qed
next
  assume "2 \<le> length cs"
  then show "fst (split_top_level_children cs) \<noteq> []" using split_both_nonempty by blast
next
  assume "2 \<le> length cs"
  then show "snd (split_top_level_children cs) \<noteq> []" using split_both_nonempty by blast
qed


theorem split_is_greedy_witness:
  "split_top_level_children
     [RenderNode 1 (py ''A'') 1 [] [py ''A''] 135 40,
      RenderNode 2 (py ''B'') 1 [] [py ''B''] 135 62,
      RenderNode 3 (py ''C'') 1 [] [py ''C''] 135 40] =
   ([RenderNode 1 (py ''A'') 1 [] [py ''A''] 135 40, RenderNode 3 (py ''C'') 1 [] [py ''C''] 135 40],
    [RenderNode 2 (py ''B'') 1 [] [py ''B''] 135 62])"
  using split_is_greedy
    [of "[RenderNode 1 (py ''A'') 1 [] [py ''A''] 135 40,
          RenderNode 2 (py ''B'') 1 [] [py ''B''] 135 62,
          RenderNode 3 (py ''C'') 1 [] [py ''C''] 135 40]"]
  by simp

section \<open>The outline parser: proofs\<close>

lemma scan_line_bullets:
  "snd (scan_line (ht, bs) l) = bs @ List.map_filter bullet_of_line [l]"
  by (simp add: scan_line_def bullet_of_line_def map_filter_simps Let_def split: option.splits prod.splits)

lemma scan_line_heading:
  "fst (scan_line (ht, bs) l) =
      (case heading_match (strip l) of
         Some g \<Rightarrow> if \<not> truthy ht then Some (clean_text g) else ht
       | None \<Rightarrow> ht)"
  by (simp add: scan_line_def Let_def split: option.splits prod.splits)

lemma final_heading_Nil: "final_heading ht [] = ht"
  by (simp add: final_heading_def map_filter_simps)

lemma final_heading_Cons:
  "final_heading ht (l # ls) =
     final_heading (case heading_match (strip l) of
         Some g \<Rightarrow> if \<not> truthy ht then Some (clean_text g) else ht
       | None \<Rightarrow> ht) ls"
proof (cases "heading_match (strip l)")
  case None
  then show ?thesis by (simp add: final_heading_def map_filter_simps)
next
  case (Some g)
  show ?thesis
  proof (cases "truthy ht")
    case True
    with Some show ?thesis by (simp add: final_heading_def)
  next
    case False
    show ?thesis
    proof (cases "clean_text g = []")
      case True
      with Some False show ?thesis
        by (simp add: final_heading_def map_filter_simps truthy_def split: option.splits)
    next
      case ne: False
      with Some False show ?thesis
        by (simp add: final_heading_def map_filter_simps truthy_def)
    qed
  qed
qed

lemma scan_fold:
  "foldl scan_line (ht, bs) ls = (final_heading ht ls, bs @ List.map_filter bullet_of_line ls)"
proof (induction ls arbitrary: ht bs)
  case Nil
  then show ?case by (simp add: map_filter_simps final_heading_Nil)
next
  case (Cons l ls)
  obtain ht1 bs1 where st: "scan_line (ht, bs) l = (ht1, bs1)" by (cases "scan_line (ht, bs) l")
  with scan_line_bullets [of ht bs l] scan_line_heading [of ht bs l]
  have bs1: "bs1 = bs @ List.map_filter bullet_of_line [l]"
    and ht1: "ht1 = (case heading_match (strip l) of
         Some g \<Rightarrow> if \<not> truthy ht then Some (clean_text g) else ht
       | None \<Rightarrow> ht)" by simp_all
  have "foldl scan_line (ht, bs) (l # ls) = foldl scan_line (ht1, bs1) ls" using st by simp
  also have "\<dots> = (final_heading ht1 ls, bs1 @ List.map_filter bullet_of_line ls)"
    by (rule Cons.IH)
  also have "final_heading ht1 ls = final_heading ht (l # ls)"
    unfolding ht1 by (rule final_heading_Cons [symmetric])
  also have "bs1 @ List.map_filter bullet_of_line ls = bs @ List.map_filter bullet_of_line (l # ls)"
    unfolding bs1 by (simp add: map_filter_simps split: option.splits)
  finally show ?case .
qed

lemma scan_lines_eq:
  "scan_lines markdown = (final_heading None (splitlines markdown), recognized_bullets markdown)"
  by (simp add: scan_lines_def scan_fold recognized_bullets_def)

lemma find_Some_holds: "find P xs = Some x \<Longrightarrow> P x"
  by (induction xs) (auto split: if_splits)

lemma final_heading_None:
  "final_heading None (splitlines markdown) =
     (case first_nonempty_heading markdown of
        Some t \<Rightarrow> Some t
      | None \<Rightarrow> if heading_texts markdown = [] then None else Some [])"
  by (simp add: final_heading_def first_nonempty_heading_def heading_texts_def truthy_def)

lemma final_heading_truthy:
  "truthy (final_heading None (splitlines markdown)) \<longleftrightarrow> first_nonempty_heading markdown \<noteq> None"
proof (cases "first_nonempty_heading markdown")
  case None
  then show ?thesis by (simp add: final_heading_None truthy_def)
next
  case (Some t)
  then have "t \<noteq> []" unfolding first_nonempty_heading_def by (rule find_Some_holds)
  with Some show ?thesis by (simp add: final_heading_None truthy_def)
qed

lemma final_heading_the:
  "truthy (final_heading None (splitlines markdown)) \<Longrightarrow>
   final_heading None (splitlines markdown) = first_nonempty_heading markdown"
  by (cases "first_nonempty_heading markdown")
     (simp_all add: final_heading_None truthy_def split: if_splits)

lemma two_headings_md_lines: "splitlines two_headings_md = [[35, 32, 96], py ''# B'', py ''- a'', py ''- b'']"
  by (simp add: two_headings_md_def py_def splitlines_def is_linebreak_def)

lemma two_headings_e1: "strip [35, 32, 96] = [35, 32, 96]" "strip (py ''# B'') = py ''# B''"
  "strip (py ''- a'') = py ''- a''" "strip (py ''- b'') = py ''- b''"
  by (simp_all add: strip_def py_def is_space_def)

lemma two_headings_e2: "heading_match [35, 32, 96] = Some [96]" "heading_match (py ''# B'') = Some (py ''B'')"
  "heading_match (py ''- a'') = None" "heading_match (py ''- b'') = None"
  by (simp_all add: heading_match_def py_def is_space_def)

lemma two_headings_e3: "bullet_match [35, 32, 96] = None" "bullet_match (py ''# B'') = None"
  "bullet_match (py ''- a'') = Some ([], py ''a'')" "bullet_match (py ''- b'') = Some ([], py ''b'')"
  by (simp_all add: bullet_match_def py_def is_space_def)

lemma two_headings_e4: "clean_text [96] = []" "clean_text (py ''B'') = py ''B''"
  "clean_text (py ''a'') = py ''a''" "clean_text (py ''b'') = py ''b''"
  by (simp_all add: clean_text_def strip_def py_def is_space_def)

lemma py_eq_Nil [simp]: "py s = [] \<longleftrightarrow> s = []"
  by (simp add: py_def)

lemma two_headings_e5: "scan_lines two_headings_md = (Some (py ''B''), [(0, py ''a''), (0, py ''b'')])"
  by (simp add: scan_lines_def two_headings_md_lines scan_line_def two_headings_e1 two_headings_e2 two_headings_e3 two_headings_e4 truthy_def expandtabs_def)

lemma two_headings_parse: "parse_mind_map_markdown two_headings_md = Inr (Some (MindMapNode (py ''B'') [MindMapNode (py ''a'') [], MindMapNode (py ''b'') []]))"
  by (simp add: parse_mind_map_markdown_def two_headings_e5 py_min_def build_tree_def push_bullet_def truthy_def)

lemma two_headings_first: "first_heading two_headings_md = Some []"
  by (simp add: first_heading_def heading_texts_def two_headings_md_lines map_filter_simps two_headings_e1 two_headings_e2 two_headings_e4)


lemma unwind_nonempty: "st \<noteq> [] \<Longrightarrow> unwind d st \<noteq> []"
  by (induction d st rule: unwind.induct) auto

lemma push_bullet_ok:
  "st \<noteq> [] \<Longrightarrow> \<exists>st'. push_bullet st b = Inr st' \<and> 2 \<le> length st'"
  using unwind_nonempty [of st "fst b"]
  by (cases b; cases "unwind (fst b) st") (auto simp: push_bullet_def)

lemma push_bullets_ok:
  "st \<noteq> [] \<Longrightarrow> \<exists>st'. push_bullets st bs = Inr st' \<and> st' \<noteq> [] \<and> (bs \<noteq> [] \<longrightarrow> 2 \<le> length st')"
proof (induction bs arbitrary: st)
  case Nil
  then show ?case by simp
next
  case (Cons b bs)
  from push_bullet_ok [OF Cons.prems, of b] obtain st1 where
    s1: "push_bullet st b = Inr st1" and l1: "2 \<le> length st1" by blast
  then have ne: "st1 \<noteq> []" by auto
  from Cons.IH [OF ne] obtain st' where
    s2: "push_bullets st1 bs = Inr st'" and ne': "st' \<noteq> []"
    and l2: "bs \<noteq> [] \<longrightarrow> 2 \<le> length st'" by blast
  have "2 \<le> length st'"
  proof (cases bs)
    case Nil
    with s2 l1 show ?thesis by simp
  next
    case (Cons a list)
    with l2 show ?thesis by simp
  qed
  with s1 s2 ne' show ?case by simp
qed

lemma bottom_node_ok:
  "st \<noteq> [] \<Longrightarrow> \<exists>n. bottom_node st = Inr n \<and> (2 \<le> length st \<longrightarrow> mm_children n \<noteq> [])"
proof (induction st rule: bottom_node.induct)
  case 1
  then show ?case by simp
next
  case (2 d n)
  then show ?case by simp
next
  case (3 d1 n d2 t cs rest)
  then obtain m where m: "bottom_node ((d2, MindMapNode t (cs @ [n])) # rest) = Inr m"
    and c: "2 \<le> length ((d2, MindMapNode t (cs @ [n])) # rest) \<longrightarrow> mm_children m \<noteq> []"
    by auto
  have "mm_children m \<noteq> []"
  proof (cases rest)
    case Nil
    with m show ?thesis by auto
  next
    case (Cons a list)
    with c show ?thesis by simp
  qed
  with m show ?case by simp
qed

lemma build_tree_ok:
  "\<exists>p. build_tree bs = Inr p \<and> (bs \<noteq> [] \<longrightarrow> mm_children p \<noteq> [])"
proof -
  obtain st where s: "push_bullets [(-1, MindMapNode (py ''__pseudo__'') [])] bs = Inr st"
    and ne: "st \<noteq> []" and l: "bs \<noteq> [] \<longrightarrow> 2 \<le> length st"
    using push_bullets_ok [of "[(-1, MindMapNode (py ''__pseudo__'') [])]" bs] by auto
  from bottom_node_ok [OF ne] obtain n where "bottom_node st = Inr n"
    and "2 \<le> length st \<longrightarrow> mm_children n \<noteq> []" by blast
  with s l show ?thesis by (auto simp: build_tree_def)
qed

lemma py_min_Min: "xs \<noteq> [] \<Longrightarrow> py_min xs = Inr (Min (set xs))"
  by (cases xs) (simp_all add: py_min_def Min.set_eq_fold [symmetric])

lemma py_max_Max: "xs \<noteq> [] \<Longrightarrow> py_max xs = Inr (Max (set xs))"
  by (cases xs) (simp_all add: py_max_def Max.set_eq_fold [symmetric])

lemma top_level_nonempty: "recognized_bullets markdown \<noteq> [] \<Longrightarrow> top_level markdown \<noteq> []"
proof -
  assume ne: "recognized_bullets markdown \<noteq> []"
  then have "normalized_bullets markdown \<noteq> []" by (simp add: normalized_bullets_def Let_def)
  with build_tree_ok [of "normalized_bullets markdown"] show ?thesis
    by (auto simp: top_level_def)
qed

lemma parse_eq:
  "parse_mind_map_markdown markdown =
     Inr (if recognized_bullets markdown = [] then None
          else case top_level markdown of
                 [c] \<Rightarrow> Some c
               | cs \<Rightarrow> Some (MindMapNode
                   (case first_nonempty_heading markdown of Some t \<Rightarrow> t | None \<Rightarrow> py ''Mind Map'')
                   cs))"
proof (cases "recognized_bullets markdown = []")
  case True
  then show ?thesis by (simp add: parse_mind_map_markdown_def scan_lines_eq)
next
  case False
  let ?bs = "recognized_bullets markdown"
  let ?ht = "final_heading None (splitlines markdown)"
  have mn: "py_min (map fst ?bs) = Inr (Min (set (map fst ?bs)))"
    using False by (intro py_min_Min) simp
  obtain p where p: "build_tree (normalized_bullets markdown) = Inr p"
    using build_tree_ok by blast
  then have tl: "top_level markdown = mm_children p" by (simp add: top_level_def)
  have ttl: "(if truthy ?ht then the ?ht else py ''Mind Map'') =
      (case first_nonempty_heading markdown of Some t \<Rightarrow> t | None \<Rightarrow> py ''Mind Map'')"
  proof (cases "truthy ?ht")
    case True
    with final_heading_the [OF True] final_heading_truthy [of markdown] show ?thesis
      by (auto split: option.splits)
  next
    case nt: False
    with final_heading_truthy [of markdown] show ?thesis by simp
  qed
  have "parse_mind_map_markdown markdown =
      (case mm_children p of [c] \<Rightarrow> Inr (Some c)
       | cs \<Rightarrow> Inr (Some (MindMapNode (if truthy ?ht then the ?ht else py ''Mind Map'') cs)))"
    using False mn p
    by (simp add: parse_mind_map_markdown_def scan_lines_eq normalized_bullets_def Let_def)
  then have "parse_mind_map_markdown markdown =
      (case top_level markdown of [c] \<Rightarrow> Inr (Some c)
       | cs \<Rightarrow> Inr (Some (MindMapNode
           (case first_nonempty_heading markdown of Some t \<Rightarrow> t | None \<Rightarrow> py ''Mind Map'') cs)))"
    unfolding ttl tl .
  then show ?thesis
    using False by (simp split: list.splits)
qed


lemma outline_lines: "splitlines outline_md = [py ''- A'', py ''  - B'', py ''  - C'']"
  by (simp add: outline_md_def py_def splitlines_def is_linebreak_def)

lemma outline_bullet_match:
  "bullet_match (py ''- A'') = Some ([], py ''A'')"
  "bullet_match (py ''  - B'') = Some (py ''  '', py ''B'')"
  "bullet_match (py ''  - C'') = Some (py ''  '', py ''C'')"
  by (simp_all add: bullet_match_def py_def is_space_def)

lemma outline_clean:
  "clean_text (py ''A'') = py ''A''" "clean_text (py ''B'') = py ''B''" "clean_text (py ''C'') = py ''C''"
  by (simp_all add: clean_text_def strip_def py_def is_space_def)

lemma outline_bullets:
  "recognized_bullets outline_md = [(0, py ''A''), (2, py ''B''), (2, py ''C'')]"
  by (simp add: recognized_bullets_def outline_lines map_filter_simps bullet_of_line_def
      outline_bullet_match outline_clean expandtabs_def)
     (simp add: py_def)

lemma outline_top_level:
  "top_level outline_md = [MindMapNode (py ''A'') [MindMapNode (py ''B'') [], MindMapNode (py ''C'') []]]"
  by (simp add: top_level_def normalized_bullets_def outline_bullets build_tree_def push_bullet_def)

text \<open>
  Claim C3, as the code has it. Without a recognized bullet the parser returns the
  no-structure result. Otherwise the pseudo-root has at least one child; a single child
  is returned as the root, and several children are wrapped under a synthesized root
  whose title is the cleaned text of the first heading whose cleaned text is not empty,
  or the fallback title when there is no such heading. The parser does not raise.
\<close>

theorem parse_result_policy:
  "parse_mind_map_markdown markdown =
     Inr (if recognized_bullets markdown = [] then None
          else case top_level markdown of
                 [c] \<Rightarrow> Some c
               | cs \<Rightarrow> Some (MindMapNode
                   (case first_nonempty_heading markdown of Some t \<Rightarrow> t | None \<Rightarrow> py ''Mind Map'')
                   cs)) \<and>
   (recognized_bullets markdown \<noteq> [] \<longrightarrow> top_level markdown \<noteq> [])"
  using parse_eq [of markdown] top_level_nonempty [of markdown] by blast

theorem parse_result_policy_witness:
  "parse_mind_map_markdown outline_md =
     Inr (Some (MindMapNode (py ''A'') [MindMapNode (py ''B'') [], MindMapNode (py ''C'') []]))"
  using parse_result_policy [of outline_md]
  by (simp add: outline_bullets outline_top_level)

text \<open>
  Claim C3 as stated fails where the first heading is emptied by the cleaning: the
  synthesized root takes the title of a later heading, not of the first one found.
\<close>

theorem first_heading_not_title:
  "parse_mind_map_markdown two_headings_md =
     Inr (Some (MindMapNode (py ''B'') [MindMapNode (py ''a'') [], MindMapNode (py ''b'') []])) \<and>
   claimed_title two_headings_md \<noteq> py ''B''"
  using two_headings_parse two_headings_first by (simp add: claimed_title_def py_def)

end
